theory Spec2Isabelle
  imports Main "HOL-Library.Sublist" "HOL-Library.Multiset"
begin

section \<open>Strings of the source language\<close>

text \<open>
  A string of the program is a sequence of code units. The model takes the code units
  below 256 (the Basic Latin and Latin-1 blocks), one \<^typ>\<open>char\<close> each, so that
  \<open>length\<close> is the program's \<open>.length\<close>. The string methods the program calls are
  written out below for this range.
\<close>

definition is_space :: "char \<Rightarrow> bool" where
  \<comment> \<open>what \<open>\s\<close> matches and \<open>trim\<close> strips: TAB, LF, VT, FF, CR, SP, NBSP\<close>
  "is_space c = (of_char c \<in> {9::nat, 10, 11, 12, 13, 32, 160})"

definition trim :: "string \<Rightarrow> string" where
  "trim s = rev (dropWhile is_space (rev (dropWhile is_space s)))"

definition lower_char :: "char \<Rightarrow> char" where
  \<comment> \<open>A-Z, and the capital letters of Latin-1 (0xC0-0xDE without the multiplication sign)\<close>
  "lower_char c =
     (let n = (of_char c :: nat)
      in if (65 \<le> n \<and> n \<le> 90) \<or> (192 \<le> n \<and> n \<le> 222 \<and> n \<noteq> 215)
         then char_of (n + 32) else c)"

definition toLowerCase :: "string \<Rightarrow> string" where
  "toLowerCase s = map lower_char s"

definition str_includes :: "string \<Rightarrow> string \<Rightarrow> bool" where
  \<comment> \<open>\<open>s.includes(pat)\<close>: \<open>pat\<close> occurs in \<open>s\<close> as a contiguous substring\<close>
  "str_includes s pat = sublist pat s"

fun split_on :: "(char \<Rightarrow> bool) \<Rightarrow> string \<Rightarrow> string \<Rightarrow> string list" where
  \<comment> \<open>\<open>split\<close> at every single separator character; \<open>cur\<close> is the piece being read\<close>
  "split_on sep cur [] = [cur]"
| "split_on sep cur (c # cs) =
     (if sep c then cur # split_on sep [] cs else split_on sep (cur @ [c]) cs)"

definition split_char :: "char \<Rightarrow> string \<Rightarrow> string list" where
  \<comment> \<open>\<open>s.split('\n')\<close>, \<open>s.split(' ')\<close>\<close>
  "split_char d s = split_on (\<lambda>c. c = d) [] s"

definition split_sentences :: "string \<Rightarrow> string list" where
  \<comment> \<open>\<open>p.split(/[.!?]/)\<close>\<close>
  "split_sentences p = split_on (\<lambda>c. c \<in> set ''.!?'') [] p"

function split_runs :: "(char \<Rightarrow> bool) \<Rightarrow> string \<Rightarrow> string \<Rightarrow> string list" where
  \<comment> \<open>\<open>split\<close> at every maximal run of separator characters\<close>
  "split_runs sep cur [] = [cur]"
| "split_runs sep cur (c # cs) =
     (if sep c then cur # split_runs sep [] (dropWhile sep cs)
      else split_runs sep (cur @ [c]) cs)"
  by pat_completeness auto
termination
  by (relation "measure (\<lambda>(sep, cur, s). length s)")
     (auto simp: le_imp_less_Suc length_dropWhile_le)

definition split_whitespace :: "string \<Rightarrow> string list" where
  \<comment> \<open>\<open>s.split(/\s+/)\<close>\<close>
  "split_whitespace s = split_runs is_space [] s"

definition ends_punct :: "string \<Rightarrow> bool" where
  \<comment> \<open>\<open>/[,.;]$/\<close> matches: the last character is a comma, a full stop or a semicolon\<close>
  "ends_punct w = (w \<noteq> [] \<and> last w \<in> set '',.;'')"

definition strip_punct :: "string \<Rightarrow> string" where
  \<comment> \<open>\<open>w.replace(/[,.;]$/, '')\<close>: the one character matched is dropped\<close>
  "strip_punct w = (if ends_punct w then butlast w else w)"

definition starts_upper :: "string \<Rightarrow> bool" where
  \<comment> \<open>\<open>/^[A-Z]/.test(w)\<close>\<close>
  "starts_upper w =
     (case w of [] \<Rightarrow> False | c # _ \<Rightarrow> 65 \<le> (of_char c :: nat) \<and> (of_char c :: nat) \<le> 90)"

fun replace_first :: "string \<Rightarrow> string \<Rightarrow> string \<Rightarrow> string" where
  \<comment> \<open>\<open>s.replace(pat, rep)\<close> with a string pattern: the leftmost occurrence only\<close>
  "replace_first [] pat rep = (if pat = [] then rep else [])"
| "replace_first (c # cs) pat rep =
     (if prefix pat (c # cs) then rep @ drop (length pat) (c # cs)
      else c # replace_first cs pat rep)"

definition blank :: string where
  "blank = ''_______''"

definition digit_char :: "nat \<Rightarrow> char" where
  "digit_char d = char_of (48 + d)"

function show_nat :: "nat \<Rightarrow> string" where
  \<comment> \<open>a length converted to a string by \<open>+\<close>: its decimal digits\<close>
  "show_nat n = (if n < 10 then [digit_char n] else show_nat (n div 10) @ [digit_char (n mod 10)])"
  by pat_completeness auto
termination
  by (relation "measure id") auto

section \<open>The quiz generator\<close>

record WikiQuizQuestion =
  question :: string
  options :: "string list"
  answer :: string

text \<open>
  \<open>Math.random\<close> is the only effect of the generator. The model reads it from a source
  \<open>rnd\<close>, the \<open>i\<close>-th draw being \<open>rnd i\<close>, and threads the number of draws made so far
  through every function. \<open>Math.floor(Math.random() * n)\<close> is an index below \<open>n\<close>, and
  every such index can come out: the model takes \<open>rnd i mod n\<close>.
\<close>

type_synonym rng = "nat \<Rightarrow> nat"

definition random_index :: "rng \<Rightarrow> nat \<Rightarrow> nat \<Rightarrow> nat" where
  "random_index rnd i n = rnd i mod n"

text \<open>
  \<open>xs.sort(() => Math.random() - 0.5)\<close> sorts with a comparator that answers at random.
  Which arrangement comes out is left to the engine; it is an arrangement of the same
  elements. The model lets the random source choose it: each element is put at a drawn
  position among those already placed, so every arrangement is reachable.
\<close>

fun shuffle :: "rng \<Rightarrow> nat \<Rightarrow> 'a list \<Rightarrow> 'a list \<times> nat" where
  "shuffle rnd i [] = ([], i)"
| "shuffle rnd i (x # xs) =
     (case shuffle rnd i xs of
        (ys, j) \<Rightarrow>
          (let k = random_index rnd j (length ys + 1)
           in (take k ys @ x # drop k ys, j + 1)))"

definition paragraphs :: "string \<Rightarrow> string list" where
  "paragraphs extract = filter (\<lambda>p. length (trim p) > 100) (split_char (CHR 0x0A) extract)"

definition sentence_pool :: "string \<Rightarrow> string list" where
  "sentence_pool extract =
     filter (\<lambda>s. length (trim s) > 50 \<and> length (trim s) < 200)
       (concat (map split_sentences (paragraphs extract)))"

definition title_word :: "string \<Rightarrow> string" where
  \<comment> \<open>\<open>title.toLowerCase().split(' ')[0]\<close>; an index past the end would read \<open>undefined\<close>\<close>
  "title_word title =
     (case split_char (CHR '' '') (toLowerCase title) of [] \<Rightarrow> ''undefined'' | w # _ \<Rightarrow> w)"

definition words :: "string \<Rightarrow> string \<Rightarrow> string list" where
  "words title trimmed =
     filter (\<lambda>w. length w > 5 \<and> \<not> str_includes (toLowerCase w) (title_word title) \<and> starts_upper w)
       (split_char (CHR '' '') trimmed)"

definition fallbackWords :: "string \<Rightarrow> string list" where
  "fallbackWords trimmed = filter (\<lambda>w. length w > 6) (split_char (CHR '' '') trimmed)"

definition targetWords :: "string \<Rightarrow> string \<Rightarrow> string list" where
  "targetWords title trimmed =
     (if length (words title trimmed) > 0 then words title trimmed else fallbackWords trimmed)"

definition allWords :: "string \<Rightarrow> string \<Rightarrow> string list" where
  "allWords extract target =
     filter (\<lambda>w. length w > 5 \<and> toLowerCase w \<noteq> toLowerCase target) (split_whitespace extract)"

text \<open>
  The loop that samples the distractors. Its list of candidates is never changed by the
  body, and a draw that is already among the options changes nothing: the loop need not
  stop. It is a partial function, \<open>None\<close> standing for a run that does not return.
\<close>

partial_function (option) sample_options ::
  "rng \<Rightarrow> string list \<Rightarrow> nat \<Rightarrow> string list \<Rightarrow> (string list \<times> nat) option" where
  "sample_options rnd pool i opts =
     (if length opts < 4 \<and> length pool > 0 then
        (let fake = strip_punct (pool ! random_index rnd i (length pool))
         in if \<not> list_ex (\<lambda>o'. toLowerCase o' = toLowerCase fake) opts
            then sample_options rnd pool (i + 1) (opts @ [fake])
            else sample_options rnd pool (i + 1) opts)
      else Some (opts, i))"

declare sample_options.simps [code]

function pad_options :: "string list \<Rightarrow> string list" where
  \<comment> \<open>the final fallback: \<open>"Option " + options.length\<close> until there are four\<close>
  "pad_options opts =
     (if length opts < 4 then pad_options (opts @ [''Option '' @ show_nat (length opts)])
      else opts)"
  by pat_completeness auto
termination
  by (relation "measure (\<lambda>opts. 4 - length opts)") auto

text \<open>
  The body of the loop over the sentences, for one sentence: no question when the
  sentence has no target word, else the question and the draws used.
\<close>

definition make_question ::
  "rng \<Rightarrow> nat \<Rightarrow> string \<Rightarrow> string \<Rightarrow> string \<Rightarrow> (WikiQuizQuestion option \<times> nat) option" where
  "make_question rnd i title extract sentence =
     (let trimmed = trim sentence;
          tws = targetWords title trimmed
      in if length tws > 0 then
           (let target = strip_punct (tws ! random_index rnd i (length tws));
                q = replace_first trimmed target blank
            in case sample_options rnd (allWords extract target) (i + 1) [target] of
                 None \<Rightarrow> None
               | Some (opts, j) \<Rightarrow>
                   (case shuffle rnd j (pad_options opts) of
                      (shuffled, k) \<Rightarrow>
                        Some (Some \<lparr>question = q, options = shuffled, answer = target\<rparr>, k)))
         else Some (None, i))"

fun quiz_loop ::
  "rng \<Rightarrow> string \<Rightarrow> string \<Rightarrow> nat \<Rightarrow> string list \<Rightarrow> WikiQuizQuestion list
     \<Rightarrow> WikiQuizQuestion list option" where
  "quiz_loop rnd title extract i [] quiz = Some quiz"
| "quiz_loop rnd title extract i (sentence # rest) quiz =
     (if length quiz \<ge> 5 then Some quiz
      else case make_question rnd i title extract sentence of
             None \<Rightarrow> None
           | Some (None, j) \<Rightarrow> quiz_loop rnd title extract j rest quiz
           | Some (Some q, j) \<Rightarrow> quiz_loop rnd title extract j rest (quiz @ [q]))"

definition generateQuizFromExtract ::
  "rng \<Rightarrow> string \<Rightarrow> string \<Rightarrow> WikiQuizQuestion list option" where
  "generateQuizFromExtract rnd title extract =
     (case shuffle rnd 0 (sentence_pool extract) of
        (pool, i) \<Rightarrow> quiz_loop rnd title extract i pool [])"

section \<open>Resolving and fetching an article\<close>

text \<open>
  \<open>parseWikiUrl\<close> calls two functions of the platform: the \<open>URL\<close> constructor, which
  raises on a string that is no URL, and \<open>decodeURIComponent\<close>, which raises on a
  malformed escape. Both are parameters of the model, \<open>None\<close> standing for the exception.
  Of a parsed URL the program reads the host name, the path and the query parameters (a
  list of name and value pairs in the order of the query string, as \<open>searchParams\<close> holds
  them).
\<close>

record URL =
  hostname :: string
  pathname :: string
  searchParams :: "(string \<times> string) list"

record platform =
  new_URL :: "string \<Rightarrow> URL option"
  decodeURIComponent :: "string \<Rightarrow> string option"

fun indexOf :: "'a list \<Rightarrow> 'a \<Rightarrow> int" where
  \<comment> \<open>the first index of an element, \<open>-1\<close> when it does not occur\<close>
  "indexOf [] x = - 1"
| "indexOf (y # ys) x =
     (if y = x then 0 else (let r = indexOf ys x in if r = - 1 then - 1 else r + 1))"

definition at_index :: "'a list \<Rightarrow> int \<Rightarrow> 'a option" where
  \<comment> \<open>\<open>xs[k]\<close>: \<open>undefined\<close>, here \<open>None\<close>, outside the list\<close>
  "at_index xs k = (if 0 \<le> k \<and> k < int (length xs) then Some (xs ! nat k) else None)"

definition truthy :: "string option \<Rightarrow> bool" where
  \<comment> \<open>\<open>undefined\<close>, \<open>null\<close> and the empty string count as false in a condition\<close>
  "truthy v = (case v of None \<Rightarrow> False | Some s \<Rightarrow> s \<noteq> [])"

definition to_string :: "string option \<Rightarrow> string" where
  \<comment> \<open>a value passed where a string is expected\<close>
  "to_string v = (case v of None \<Rightarrow> ''undefined'' | Some s \<Rightarrow> s)"

definition search_get :: "(string \<times> string) list \<Rightarrow> string \<Rightarrow> string option" where
  \<comment> \<open>\<open>searchParams.get(name)\<close>: the value of the first pair of that name\<close>
  "search_get params name = map_of params name"

definition parseWikiUrl :: "platform \<Rightarrow> string \<Rightarrow> string option" where
  "parseWikiUrl pf url =
     (case new_URL pf url of
        None \<Rightarrow> None
      | Some urlObj \<Rightarrow>
          if str_includes (hostname urlObj) ''wikipedia.org'' then
            (let pathParts = split_char (CHR ''/'') (pathname urlObj);
                 wikiIndex = indexOf pathParts ''wiki''
             in if wikiIndex \<noteq> - 1 \<and> truthy (at_index pathParts (wikiIndex + 1))
                then decodeURIComponent pf (to_string (at_index pathParts (wikiIndex + 1)))
                else (let titleParam = search_get (searchParams urlObj) ''title''
                      in if truthy titleParam then titleParam else None))
          else None)"

text \<open>
  \<open>encodeURIComponent\<close> on the strings of the model: a code unit outside the unreserved
  set is replaced by the escapes of its UTF-8 bytes, one byte below 128 and two from
  there on.
\<close>

definition hex_digit :: "nat \<Rightarrow> char" where
  "hex_digit d = (if d < 10 then char_of (48 + d) else char_of (55 + d))"

definition percent :: "nat \<Rightarrow> string" where
  "percent b = [CHR ''%'', hex_digit (b div 16), hex_digit (b mod 16)]"

definition uri_unreserved :: "char \<Rightarrow> bool" where
  "uri_unreserved c =
     (c \<in> set ''ABCDEFGHIJKLMNOPQRSTUVWXYZabcdefghijklmnopqrstuvwxyz0123456789-_.!~*()''
      \<or> c = CHR 0x27)"

definition encode_unit :: "char \<Rightarrow> string" where
  "encode_unit c =
     (let n = (of_char c :: nat)
      in if uri_unreserved c then [c]
         else if n < 128 then percent n
         else percent (192 + n div 64) @ percent (128 + n mod 64))"

definition encodeURIComponent :: "string \<Rightarrow> string" where
  "encodeURIComponent s = concat (map encode_unit s)"

text \<open>
  The request is the second parameter: \<open>axios_get title\<close> is what the query for \<open>title\<close>
  answers, \<open>None\<close> when the request fails (the failure is passed on to the caller), else
  \<open>response.data.query.pages\<close> as the list of its page ids and pages in the order of
  \<open>Object.keys\<close>. Of a page the program reads \<open>title\<close>, \<open>extract\<close> (absent from a page
  that does not exist) and \<open>missing\<close>, which the interface sets to the empty string or to
  \<open>true\<close>, depending on the format asked for, and leaves out of a page that exists.
\<close>

datatype js_value = JS_undefined | JS_boolean bool | JS_string string

definition is_true :: "js_value \<Rightarrow> bool" where
  \<comment> \<open>a value in a condition: \<open>undefined\<close>, \<open>false\<close> and the empty string count as false\<close>
  "is_true v = (case v of JS_undefined \<Rightarrow> False | JS_boolean b \<Rightarrow> b | JS_string s \<Rightarrow> s \<noteq> [])"

record page =
  page_title :: string
  page_extract :: "string option"
  page_missing :: js_value

record WikiArticle =
  article_title :: string
  article_extract :: "string option"
  article_url :: string

datatype fetch_error =
    ArticleNotFound \<comment> \<open>\<open>Error('Article not found')\<close>\<close>
  | TypeError \<comment> \<open>a property read of \<open>undefined\<close>: no page in the response\<close>
  | RequestFailed \<comment> \<open>the rejection of the request\<close>

definition resolve_title :: "platform \<Rightarrow> string \<Rightarrow> string" where
  \<comment> \<open>\<open>parseWikiUrl(titleOrUrl) || titleOrUrl\<close>\<close>
  "resolve_title pf titleOrUrl =
     (if truthy (parseWikiUrl pf titleOrUrl) then to_string (parseWikiUrl pf titleOrUrl)
      else titleOrUrl)"

definition fetchWikiArticle ::
  "platform \<Rightarrow> (string \<Rightarrow> (string \<times> page) list option) \<Rightarrow> string
     \<Rightarrow> fetch_error + WikiArticle" where
  "fetchWikiArticle pf axios_get titleOrUrl =
     (let title = resolve_title pf titleOrUrl
      in case axios_get title of
           None \<Rightarrow> Inl RequestFailed
         | Some pages \<Rightarrow>
             (case pages of
                [] \<Rightarrow> Inl TypeError
              | (pageId, page) # _ \<Rightarrow>
                  if is_true (page_missing page) \<or> pageId = ''-1'' then Inl ArticleNotFound
                  else Inr \<lparr>article_title = page_title page,
                            article_extract = page_extract page,
                            article_url = ''https://en.wikipedia.org/wiki/''
                              @ encodeURIComponent (page_title page)\<rparr>))"

section \<open>The history\<close>

record QuizResult =
  result_question :: string
  result_answer :: string
  selected :: string
  isCorrect :: bool

record HistoryItem =
  url :: string
  topic :: string
  score :: int
  total :: int
  date :: string
  results :: "QuizResult list"

text \<open>
  The state \<open>saveToHistory\<close> writes: the component's \<open>history\<close> and the local storage.
  The storage holds the JSON text of a list; the model keeps the list that text encodes.
\<close>

record AppState =
  history :: "HistoryItem list"
  localStorage :: "string \<Rightarrow> HistoryItem list option"

fun findIndex :: "('a \<Rightarrow> bool) \<Rightarrow> 'a list \<Rightarrow> int" where
  \<comment> \<open>the index of the first element that satisfies the test, \<open>-1\<close> when none does\<close>
  "findIndex p [] = - 1"
| "findIndex p (x # xs) =
     (if p x then 0 else (let r = findIndex p xs in if r = - 1 then - 1 else r + 1))"

definition filter_indexed :: "('a \<Rightarrow> nat \<Rightarrow> 'a list \<Rightarrow> bool) \<Rightarrow> 'a list \<Rightarrow> 'a list" where
  \<comment> \<open>\<open>a.filter((v, i, a) => ...)\<close>\<close>
  "filter_indexed f a = map snd (filter (\<lambda>(i, v). f v i a) (enumerate 0 a))"

definition newHistory :: "HistoryItem \<Rightarrow> HistoryItem list \<Rightarrow> HistoryItem list" where
  "newHistory item hist =
     filter_indexed
       (\<lambda>v i a. findIndex (\<lambda>t. url t = url v \<and> date t = date v) a = int i)
       (item # hist)"

definition saveToHistory :: "HistoryItem \<Rightarrow> AppState \<Rightarrow> AppState" where
  "saveToHistory item st =
     (let new = newHistory item (history st)
      in st\<lparr>history := new,
            localStorage := (localStorage st)(''wiki_quiz_history'' \<mapsto> new)\<rparr>)"

section \<open>Example inputs\<close>

text \<open>The inputs at which the theorems below are evaluated.\<close>

definition item1 :: HistoryItem where
  "item1 = \<lparr>url = ''https://en.wikipedia.org/wiki/Alan_Turing'', topic = ''Alan Turing'',
     score = 3, total = 5, date = ''11/2/2026, 7:00:00 PM'', results = []\<rparr>"

definition item2 :: HistoryItem where
  "item2 = \<lparr>url = ''https://en.wikipedia.org/wiki/Alan_Turing'', topic = ''Alan Turing'',
     score = 4, total = 5, date = ''11/2/2026, 7:00:00 PM'', results = []\<rparr>"

definition state1 :: AppState where
  "state1 = \<lparr>history = [item1], localStorage = (\<lambda>k. None)\<rparr>"

definition count_rng :: rng where
  \<comment> \<open>a random source: the \<open>i\<close>-th draw is \<open>i\<close>\<close>
  "count_rng i = i"

definition python_title :: string where
  "python_title = ''Python (programming language)''"

definition python_extract :: string where
  "python_extract = ''Python is a widely used language that Guido van Rossum created in the early nineties and that many people around the world now use''"

definition python_question :: WikiQuizQuestion where
  "python_question =
     \<lparr>question = ''Python is a widely used language that Guido van _______ created in the early nineties and that many people around the world now use'',
      options = [''Rossum'', ''created'', ''language'', ''nineties''],
      answer = ''Rossum''\<rparr>"

definition louvre_extract :: string where
  "louvre_extract = ''The Louvre is a museum of art that stands in the middle of the city of Paris,, on the right bank of the river, and has grown a lot over the years''"

definition louvre_question :: WikiQuizQuestion where
  "louvre_question =
     \<lparr>question = ''The Louvre is a museum of art that stands in the middle of the city of _______, on the right bank of the river, and has grown a lot over the years'',
      options = [''river'', ''Paris,'', ''middle'', ''stands''],
      answer = ''Paris,''\<rparr>"

definition cloze_extract :: string where
  "cloze_extract = ''In this sentence the hidden word is shown as _______ and the reader has to find out which word it stands for in the text''"

definition cloze_question :: WikiQuizQuestion where
  "cloze_question =
     \<lparr>question = ''In this sentence the hidden word is shown as _______ and the reader has to find out which word it stands for in the text'',
      options = [''_______'', ''stands'', ''reader'', ''sentence''],
      answer = ''_______''\<rparr>"

definition indeed_extract :: string where
  "indeed_extract = ''Python is a very nice and good way to get the job done for all of us who need to do a lot of work in a short time and we like it a lot indeed''"

text \<open>
  A platform for the examples: the \<open>URL\<close> constructor at five addresses, with the parts it
  gives them, and \<open>decodeURIComponent\<close> at the strings without an escape, which it leaves
  as they are. The examples call it at no other argument.
\<close>

definition turing_url :: string where
  "turing_url = ''https://en.wikipedia.org/wiki/Alan_Turing''"

definition acdc_url :: string where
  "acdc_url = ''https://en.wikipedia.org/wiki/AC/DC''"

definition index_url :: string where
  "index_url = ''https://en.wikipedia.org/w/index.php?title=Alan_Turing''"

definition acdc_index_url :: string where
  "acdc_index_url = ''https://en.wikipedia.org/w/index.php?title=AC/DC''"

definition other_url :: string where
  "other_url = ''https://example.com/?title=Alan_Turing''"

definition turing_parsed :: URL where
  "turing_parsed = \<lparr>hostname = ''en.wikipedia.org'', pathname = ''/wiki/Alan_Turing'',
     searchParams = []\<rparr>"

definition acdc_parsed :: URL where
  "acdc_parsed = \<lparr>hostname = ''en.wikipedia.org'', pathname = ''/wiki/AC/DC'',
     searchParams = []\<rparr>"

definition index_parsed :: URL where
  "index_parsed = \<lparr>hostname = ''en.wikipedia.org'', pathname = ''/w/index.php'',
     searchParams = [(''title'', ''Alan_Turing'')]\<rparr>"

definition acdc_index_parsed :: URL where
  "acdc_index_parsed = \<lparr>hostname = ''en.wikipedia.org'', pathname = ''/w/index.php'',
     searchParams = [(''title'', ''AC/DC'')]\<rparr>"

definition other_parsed :: URL where
  "other_parsed = \<lparr>hostname = ''example.com'', pathname = ''/'',
     searchParams = [(''title'', ''Alan_Turing'')]\<rparr>"

definition example_new_URL :: "string \<Rightarrow> URL option" where
  "example_new_URL s =
     (if s = turing_url then Some turing_parsed
      else if s = acdc_url then Some acdc_parsed
      else if s = index_url then Some index_parsed
      else if s = acdc_index_url then Some acdc_index_parsed
      else if s = other_url then Some other_parsed
      else None)"

definition example_decode :: "string \<Rightarrow> string option" where
  "example_decode s = (if CHR ''%'' \<in> set s then None else Some s)"

definition example_platform :: platform where
  "example_platform = \<lparr>new_URL = example_new_URL, decodeURIComponent = example_decode\<rparr>"

definition turing_page :: page where
  "turing_page = \<lparr>page_title = ''Alan Turing'',
     page_extract = Some ''Alan Mathison Turing was an English mathematician.'',
     page_missing = JS_undefined\<rparr>"

definition turing_article :: WikiArticle where
  "turing_article = \<lparr>article_title = ''Alan Turing'',
     article_extract = Some ''Alan Mathison Turing was an English mathematician.'',
     article_url = ''https://en.wikipedia.org/wiki/Alan%20Turing''\<rparr>"

definition example_axios_get :: "string \<Rightarrow> (string \<times> page) list option" where
  \<comment> \<open>one page for the title \<open>Alan_Turing\<close>, the page of id \<open>-1\<close> for any other title\<close>
  "example_axios_get title =
     (if title = ''Alan_Turing'' then Some [(''1208'', turing_page)]
      else Some [(''-1'', \<lparr>page_title = title, page_extract = None,
                           page_missing = JS_string []\<rparr>)])"

section \<open>Properties of the string functions and of the shuffle\<close>

lemma mset_shuffle: "mset (fst (shuffle rnd i xs)) = mset xs"
proof (induction xs)
  case Nil
  show ?case by simp
next
  case (Cons x xs)
  obtain ys j where s: "shuffle rnd i xs = (ys, j)" by (cases "shuffle rnd i xs")
  with Cons have ys: "mset ys = mset xs" by simp
  have "mset (take k ys @ x # drop k ys) = add_mset x (mset ys)" for k
    by (metis append_take_drop_id mset.simps(2) mset_append union_mset_add_mset_right)
  with s ys show ?case by (simp add: Let_def)
qed

lemma set_shuffle: "set (fst (shuffle rnd i xs)) = set xs"
  using mset_shuffle [of rnd i xs] by (rule mset_eq_setD)

lemma length_shuffle: "length (fst (shuffle rnd i xs)) = length xs"
  using mset_shuffle [of rnd i xs] by (rule mset_eq_length)

lemma distinct_map_shuffle:
  "distinct (map f (fst (shuffle rnd i xs))) = distinct (map f xs)"
proof -
  have "mset (map f (fst (shuffle rnd i xs))) = mset (map f xs)"
    by (simp add: mset_shuffle)
  then show ?thesis by (rule mset_eq_imp_distinct_iff)
qed

lemma split_on_no_sep:
  "w \<in> set (split_on sep cur s) \<Longrightarrow> \<forall>c \<in> set cur. \<not> sep c \<Longrightarrow> \<forall>c \<in> set w. \<not> sep c"
  by (induction sep cur s rule: split_on.induct) (auto split: if_splits)

lemma split_on_sublist:
  "w \<in> set (split_on sep cur s) \<Longrightarrow> \<exists>pre post. cur @ s = pre @ w @ post"
proof (induction sep cur s rule: split_on.induct)
  case (1 sep cur)
  then show ?case by (auto intro: exI [of _ "[]"])
next
  case (2 sep cur c cs)
  show ?case
  proof (cases "sep c")
    case True
    with 2 have "w = cur \<or> w \<in> set (split_on sep [] cs)" by simp
    then show ?thesis
    proof
      assume "w = cur"
      then have "cur @ c # cs = [] @ w @ (c # cs)" by simp
      then show ?thesis by blast
    next
      assume "w \<in> set (split_on sep [] cs)"
      with 2 True obtain pre post where "cs = pre @ w @ post" by auto
      then have "cur @ c # cs = (cur @ c # pre) @ w @ post" by simp
      then show ?thesis by blast
    qed
  next
    case False
    with 2 show ?thesis by auto
  qed
qed

lemma replace_first_found:
  "sublist pat s \<Longrightarrow>
   \<exists>pre post. s = pre @ pat @ post \<and> replace_first s pat rep = pre @ rep @ post
     \<and> (\<forall>k < length pre. \<not> prefix pat (drop k s))"
proof (induction s)
  case Nil
  then have "pat = []" by simp
  then show ?case by simp
next
  case (Cons c cs)
  show ?case
  proof (cases "prefix pat (c # cs)")
    case True
    then obtain post where eq: "c # cs = pat @ post" by (auto simp: prefix_def)
    have "replace_first (c # cs) pat rep = rep @ drop (length pat) (c # cs)"
      using True by simp
    also have "drop (length pat) (c # cs) = post"
      unfolding eq by simp
    finally have "c # cs = [] @ pat @ post \<and> replace_first (c # cs) pat rep = [] @ rep @ post
       \<and> (\<forall>k < length ([]::string). \<not> prefix pat (drop k (c # cs)))"
      using eq by simp
    then show ?thesis by blast
  next
    case False
    with Cons.prems have "sublist pat cs" by (simp add: sublist_Cons_right)
    from Cons.IH [OF this] obtain pre post where
      h: "cs = pre @ pat @ post" "replace_first cs pat rep = pre @ rep @ post"
         "\<forall>k < length pre. \<not> prefix pat (drop k cs)" by blast
    have "\<forall>k < length (c # pre). \<not> prefix pat (drop k (c # cs))"
    proof (intro allI impI)
      fix k assume "k < length (c # pre)"
      then show "\<not> prefix pat (drop k (c # cs))"
        using False h(3) by (cases k) auto
    qed
    with h False have "c # cs = (c # pre) @ pat @ post
       \<and> replace_first (c # cs) pat rep = (c # pre) @ rep @ post
       \<and> (\<forall>k < length (c # pre). \<not> prefix pat (drop k (c # cs)))" by simp
    then show ?thesis by blast
  qed
qed

lemma of_char_lower_char_space:
  "(of_char (lower_char c) :: nat) = 32 \<longleftrightarrow> (of_char c :: nat) = 32"
proof -
  define n where "n = (of_char c :: nat)"
  show ?thesis
  proof (cases "(65 \<le> n \<and> n \<le> 90) \<or> (192 \<le> n \<and> n \<le> 222 \<and> n \<noteq> 215)")
    case True
    then have "lower_char c = char_of (n + 32)"
      unfolding lower_char_def Let_def n_def by (rule if_P)
    then have "(of_char (lower_char c) :: nat) = (n + 32) mod 256" by simp
    with True show ?thesis unfolding n_def [symmetric] by auto
  next
    case False
    then have "lower_char c = c"
      unfolding lower_char_def Let_def n_def by (rule if_not_P)
    then show ?thesis by simp
  qed
qed

lemma lower_char_space: "lower_char c = CHR '' '' \<longleftrightarrow> c = CHR '' ''"
proof -
  have "lower_char c = CHR '' '' \<longleftrightarrow> (of_char (lower_char c) :: nat) = of_char (CHR '' '')"
    by (simp only: of_char_eq_iff)
  also have "\<dots> \<longleftrightarrow> (of_char c :: nat) = of_char (CHR '' '')"
    by (simp add: of_char_lower_char_space)
  also have "\<dots> \<longleftrightarrow> c = CHR '' ''" by (simp only: of_char_eq_iff)
  finally show ?thesis .
qed

lemma space_in_toLowerCase:
  "CHR '' '' \<in> set (toLowerCase w) \<longleftrightarrow> CHR '' '' \<in> set w"
proof -
  have "CHR '' '' \<in> set (toLowerCase w) \<longleftrightarrow> (\<exists>c \<in> set w. lower_char c = CHR '' '')"
    unfolding toLowerCase_def set_map image_iff by (rule bex_cong) auto
  then show ?thesis by (simp add: lower_char_space)
qed

lemma set_strip_punct: "set (strip_punct w) \<subseteq> set w"
  by (auto simp: strip_punct_def dest: in_set_butlastD)

lemma length_strip_punct: "length w \<le> length (strip_punct w) + 1"
  by (simp add: strip_punct_def ends_punct_def)

lemma prefix_strip_punct: "prefix (strip_punct w) w"
  by (simp add: strip_punct_def prefixeq_butlast)

lemma ends_punct_strip_punct:
  "ends_punct (strip_punct w) \<longleftrightarrow> ends_punct w \<and> ends_punct (butlast w)"
  by (auto simp: strip_punct_def)

lemma split_char_no_sep: "w \<in> set (split_char d s) \<Longrightarrow> d \<notin> set w"
  using split_on_no_sep [of w "\<lambda>c. c = d" "[]" s] by (auto simp: split_char_def)

lemma split_char_sublist: "w \<in> set (split_char d s) \<Longrightarrow> sublist w s"
  using split_on_sublist [of w "\<lambda>c. c = d" "[]" s] by (auto simp: split_char_def sublist_def)

lemma targetWords_cases:
  assumes "w \<in> set (targetWords title t)"
  shows "w \<in> set (split_char (CHR '' '') t)
     \<and> ((w \<in> set (words title t) \<and> length w > 5)
        \<or> (words title t = [] \<and> w \<in> set (fallbackWords t) \<and> length w > 6))"
proof (cases "words title t = []")
  case True
  with assms have "w \<in> set (fallbackWords t)" by (simp add: targetWords_def)
  with True show ?thesis by (auto simp: fallbackWords_def)
next
  case False
  with assms have "w \<in> set (words title t)" by (simp add: targetWords_def)
  then show ?thesis by (auto simp: words_def)
qed

section \<open>The sampling loop and the padding\<close>

lemma sample_options_result:
  assumes "sample_options rnd pool i opts = Some y"
  shows "distinct (map toLowerCase opts) \<longrightarrow>
           (\<exists>extra. fst y = opts @ extra)
         \<and> distinct (map toLowerCase (fst y))
         \<and> (pool = [] \<longrightarrow> fst y = opts)
         \<and> (pool \<noteq> [] \<and> length opts \<le> 4 \<longrightarrow> length (fst y) = 4)"
proof (rule sample_options.raw_induct [where P = "\<lambda>rnd pool i opts y.
         distinct (map toLowerCase opts) \<longrightarrow>
           (\<exists>extra. fst y = opts @ extra)
         \<and> distinct (map toLowerCase (fst y))
         \<and> (pool = [] \<longrightarrow> fst y = opts)
         \<and> (pool \<noteq> [] \<and> length opts \<le> 4 \<longrightarrow> length (fst y) = 4)", OF _ assms], goal_cases)
  case (1 f rnd pool i opts y)
  show ?case
  proof (cases "length opts < 4 \<and> length pool > 0")
    case False
    with 1(2) have "y = (opts, i)" by (auto split: if_splits)
    with False show ?thesis by auto
  next
    case True
    define fake where "fake = strip_punct (pool ! random_index rnd i (length pool))"
    show ?thesis
    proof (cases "list_ex (\<lambda>o'. toLowerCase o' = toLowerCase fake) opts")
      case True
      with \<open>length opts < 4 \<and> length pool > 0\<close> 1(2)
      have "f rnd pool (i + 1) opts = Some y"
        by (simp add: fake_def Let_def)
      from 1(1) [OF this] show ?thesis .
    next
      case False
      with \<open>length opts < 4 \<and> length pool > 0\<close> 1(2)
      have r: "f rnd pool (i + 1) (opts @ [fake]) = Some y"
        by (simp add: fake_def Let_def)
      from False have new: "toLowerCase fake \<notin> set (map toLowerCase opts)"
        by (auto simp: list_ex_iff)
      show ?thesis
      proof
        assume d: "distinct (map toLowerCase opts)"
        with new have "distinct (map toLowerCase (opts @ [fake]))" by simp
        with 1(1) [OF r] have
          h: "\<exists>extra. fst y = (opts @ [fake]) @ extra"
             "distinct (map toLowerCase (fst y))"
             "pool \<noteq> [] \<and> length (opts @ [fake]) \<le> 4 \<longrightarrow> length (fst y) = 4"
          by blast+
        from h(1) have "\<exists>extra. fst y = opts @ extra" by auto
        moreover from h(3) \<open>length opts < 4 \<and> length pool > 0\<close>
        have "length (fst y) = 4" by auto
        ultimately show "(\<exists>extra. fst y = opts @ extra)
         \<and> distinct (map toLowerCase (fst y))
         \<and> (pool = [] \<longrightarrow> fst y = opts)
         \<and> (pool \<noteq> [] \<and> length opts \<le> 4 \<longrightarrow> length (fst y) = 4)"
          using h(2) \<open>length opts < 4 \<and> length pool > 0\<close> by auto
      qed
    qed
  qed
qed

lemma sample_options_stuck:
  assumes "sample_options rnd pool i opts = Some y"
  shows "\<not> (pool \<noteq> [] \<and> distinct (map toLowerCase opts)
            \<and> card (toLowerCase ` (set opts \<union> strip_punct ` set pool)) < 4)"
proof (rule sample_options.raw_induct [where P = "\<lambda>rnd pool i opts y.
          \<not> (pool \<noteq> [] \<and> distinct (map toLowerCase opts)
            \<and> card (toLowerCase ` (set opts \<union> strip_punct ` set pool)) < 4)", OF _ assms], goal_cases)
  case (1 f rnd pool i opts y)
  show ?case
  proof
    assume inv: "pool \<noteq> [] \<and> distinct (map toLowerCase opts)
            \<and> card (toLowerCase ` (set opts \<union> strip_punct ` set pool)) < 4"
    define fake where "fake = strip_punct (pool ! random_index rnd i (length pool))"
    from inv have "random_index rnd i (length pool) < length pool"
      by (simp add: random_index_def)
    then have fake_in: "fake \<in> strip_punct ` set pool"
      by (simp add: fake_def)
    have "card (toLowerCase ` set opts) \<le> card (toLowerCase ` (set opts \<union> strip_punct ` set pool))"
      by (intro card_mono) auto
    moreover from inv have "card (toLowerCase ` set opts) = length opts"
      by (metis distinct_card length_map set_map)
    ultimately have len: "length opts < 4" using inv by simp
    show False
    proof (cases "list_ex (\<lambda>o'. toLowerCase o' = toLowerCase fake) opts")
      case True
      with len inv 1(2) have "f rnd pool (i + 1) opts = Some y"
        by (simp add: fake_def Let_def)
      from 1(1) [OF this] inv show False by blast
    next
      case False
      with len inv 1(2)
      have r: "f rnd pool (i + 1) (opts @ [fake]) = Some y"
        by (simp add: fake_def Let_def)
      from False have "toLowerCase fake \<notin> set (map toLowerCase opts)"
        by (auto simp: list_ex_iff)
      with inv have d: "distinct (map toLowerCase (opts @ [fake]))" by simp
      from fake_in have "set (opts @ [fake]) \<union> strip_punct ` set pool
          = set opts \<union> strip_punct ` set pool" by auto
      with inv have "card (toLowerCase ` (set (opts @ [fake]) \<union> strip_punct ` set pool)) < 4"
        by simp
      with 1(1) [OF r] inv d show False by blast
    qed
  qed
qed

lemma pad_options_full: "length opts \<ge> 4 \<Longrightarrow> pad_options opts = opts"
  by simp

lemma small_digits: "digit_char (Suc 0) = CHR ''1''" "digit_char (Suc (Suc 0)) = CHR ''2''"
  "digit_char (Suc (Suc (Suc 0))) = CHR ''3''"
  by code_simp+

lemma pad_options_single:
  "pad_options [t] = [t, ''Option 1'', ''Option 2'', ''Option 3'']"
  by (simp add: small_digits)

section \<open>What a returned question is made of\<close>

lemma make_question_Some:
  assumes "make_question rnd i title extract sentence = Some (Some q, j)"
  shows "\<exists>w opts k. w \<in> set (targetWords title (trim sentence))
     \<and> answer q = strip_punct w
     \<and> question q = replace_first (trim sentence) (answer q) blank
     \<and> sample_options rnd (allWords extract (answer q)) (i + 1) [answer q] = Some (opts, k)
     \<and> options q = fst (shuffle rnd k (pad_options opts))"
proof -
  define tws where "tws = targetWords title (trim sentence)"
  define w where "w = tws ! random_index rnd i (length tws)"
  define target where "target = strip_punct w"
  have ne: "length tws > 0"
  proof (rule ccontr)
    assume "\<not> length tws > 0"
    then have "make_question rnd i title extract sentence = Some (None, i)"
      unfolding make_question_def Let_def tws_def by (rule if_not_P)
    with assms show False by simp
  qed
  then have win: "w \<in> set tws" by (simp add: w_def random_index_def)
  from ne have eq: "make_question rnd i title extract sentence =
     (case sample_options rnd (allWords extract target) (i + 1) [target] of
        None \<Rightarrow> None
      | Some (opts, j) \<Rightarrow>
          (case shuffle rnd j (pad_options opts) of
             (shuffled, k) \<Rightarrow>
               Some (Some \<lparr>question = replace_first (trim sentence) target blank,
                           options = shuffled, answer = target\<rparr>, k)))"
    unfolding make_question_def Let_def tws_def w_def target_def by (rule if_P)
  with assms obtain opts k where
    so: "sample_options rnd (allWords extract target) (i + 1) [target] = Some (opts, k)"
    by (cases "sample_options rnd (allWords extract target) (i + 1) [target]") auto
  obtain shuffled k' where sh: "shuffle rnd k (pad_options opts) = (shuffled, k')"
    by (cases "shuffle rnd k (pad_options opts)")
  from assms eq so sh have
    "q = \<lparr>question = replace_first (trim sentence) target blank,
          options = shuffled, answer = target\<rparr>"
    by simp
  with sh have "answer q = target"
    "question q = replace_first (trim sentence) target blank"
    "options q = fst (shuffle rnd k (pad_options opts))" by simp_all
  with so win have "w \<in> set (targetWords title (trim sentence))
     \<and> answer q = strip_punct w
     \<and> question q = replace_first (trim sentence) (answer q) blank
     \<and> sample_options rnd (allWords extract (answer q)) (i + 1) [answer q] = Some (opts, k)
     \<and> options q = fst (shuffle rnd k (pad_options opts))"
    unfolding tws_def target_def by simp
  then show ?thesis by blast
qed

lemma quiz_loop_member:
  assumes "quiz_loop rnd title extract i ss quiz = Some r" and "q \<in> set r"
  shows "q \<in> set quiz
     \<or> (\<exists>s \<in> set ss. \<exists>i j. make_question rnd i title extract s = Some (Some q, j))"
  using assms
proof (induction ss arbitrary: i quiz)
  case Nil
  then show ?case by simp
next
  case (Cons s ss)
  show ?case
  proof (cases "length quiz \<ge> 5")
    case True
    with Cons.prems show ?thesis by simp
  next
    case False
    with Cons.prems obtain v j where mq: "make_question rnd i title extract s = Some (v, j)"
      by (cases "make_question rnd i title extract s") auto
    show ?thesis
    proof (cases v)
      case None
      with mq False Cons.prems have "quiz_loop rnd title extract j ss quiz = Some r" by simp
      from Cons.IH [OF this Cons.prems(2)] show ?thesis by auto
    next
      case (Some q')
      with mq False Cons.prems have "quiz_loop rnd title extract j ss (quiz @ [q']) = Some r"
        by simp
      from Cons.IH [OF this Cons.prems(2)] have
        "q \<in> set quiz \<or> q = q'
          \<or> (\<exists>s \<in> set ss. \<exists>i j. make_question rnd i title extract s = Some (Some q, j))"
        by auto
      with mq Some show ?thesis by auto
    qed
  qed
qed

lemma generated_question:
  assumes "generateQuizFromExtract rnd title extract = Some quiz" and "q \<in> set quiz"
  shows "\<exists>s w opts i k. s \<in> set (sentence_pool extract)
     \<and> w \<in> set (targetWords title (trim s))
     \<and> answer q = strip_punct w
     \<and> question q = replace_first (trim s) (answer q) blank
     \<and> sample_options rnd (allWords extract (answer q)) (i + 1) [answer q] = Some (opts, k)
     \<and> options q = fst (shuffle rnd k (pad_options opts))"
proof -
  obtain pool i0 where sh: "shuffle rnd 0 (sentence_pool extract) = (pool, i0)"
    by (cases "shuffle rnd 0 (sentence_pool extract)")
  with assms(1) have "quiz_loop rnd title extract i0 pool [] = Some quiz"
    by (simp add: generateQuizFromExtract_def)
  from quiz_loop_member [OF this assms(2)] obtain s i j where
    s: "s \<in> set pool" and mq: "make_question rnd i title extract s = Some (Some q, j)"
    by auto
  from sh have "pool = fst (shuffle rnd 0 (sentence_pool extract))" by simp
  with s have "s \<in> set (sentence_pool extract)" by (simp add: set_shuffle)
  with make_question_Some [OF mq] show ?thesis by blast
qed

lemma sentence_no_stop:
  assumes "s \<in> set (sentence_pool extract)"
  shows "CHR ''.'' \<notin> set s"
proof -
  from assms obtain p where "s \<in> set (split_sentences p)"
    by (auto simp: sentence_pool_def)
  then have "\<forall>c \<in> set s. \<not> c \<in> set ''.!?''"
    unfolding split_sentences_def by (rule split_on_no_sep) simp
  then show ?thesis by auto
qed

lemma set_trim: "set (trim s) \<subseteq> set s"
  by (auto simp: trim_def dest!: set_dropWhileD)

lemma sublist_set: "sublist xs ys \<Longrightarrow> set xs \<subseteq> set ys"
  by (auto simp: sublist_def)

lemma target_sublist:
  assumes "w \<in> set (targetWords title t)"
  shows "sublist (strip_punct w) t"
proof -
  from targetWords_cases [OF assms] have "w \<in> set (split_char (CHR '' '') t)" by blast
  then have "sublist w t" by (rule split_char_sublist)
  moreover have "sublist (strip_punct w) w"
    by (rule prefix_imp_sublist) (rule prefix_strip_punct)
  ultimately show ?thesis by (rule sublist_order.order.trans [rotated])
qed

lemma target_no_space:
  assumes "w \<in> set (targetWords title t)"
  shows "CHR '' '' \<notin> set (strip_punct w)"
proof -
  from targetWords_cases [OF assms] have "w \<in> set (split_char (CHR '' '') t)" by blast
  then have "CHR '' '' \<notin> set w" by (rule split_char_no_sep)
  with set_strip_punct [of w] show ?thesis by auto
qed

lemma lower_placeholders:
  "distinct (map toLowerCase [''Option 1'', ''Option 2'', ''Option 3''])"
  by code_simp

lemma distinct_padded_single:
  assumes "CHR '' '' \<notin> set t"
  shows "distinct (map toLowerCase (pad_options [t]))"
proof -
  have "toLowerCase t \<noteq> toLowerCase p" if "CHR '' '' \<in> set p" for p
    using assms that space_in_toLowerCase [of t] space_in_toLowerCase [of p] by auto
  then have "toLowerCase t \<notin> set (map toLowerCase [''Option 1'', ''Option 2'', ''Option 3''])"
    by auto
  with lower_placeholders show ?thesis
    unfolding pad_options_single by simp
qed

lemma prefix_of_append_take:
  assumes "prefix a (b @ c)"
  shows "prefix (take (length b) a) b"
proof -
  from assms have "prefix a b \<or> (\<exists>c'. a = b @ c')"
    by (auto simp: prefix_append)
  then show ?thesis
  proof
    assume "prefix a b"
    then show ?thesis by (metis prefix_length_le take_all)
  next
    assume "\<exists>c'. a = b @ c'"
    then show ?thesis by auto
  qed
qed

section \<open>The generator on the example inputs\<close>

lemma gen_python:
  "generateQuizFromExtract count_rng python_title python_extract = Some [python_question]"
  by code_simp

lemma gen_louvre:
  "generateQuizFromExtract count_rng ''France'' louvre_extract = Some [louvre_question]"
  by code_simp

lemma gen_cloze:
  "generateQuizFromExtract count_rng ''Cloze test'' cloze_extract = Some [cloze_question]"
  by code_simp

section \<open>The questions that are returned\<close>

text \<open>
  Claim C2. Every question that \<open>generateQuizFromExtract\<close> returns has exactly four
  options, no two of them equal when compared in lower case, and its answer is one of
  them (so it is one of them in lower case too).
\<close>

theorem options_four_distinct:
  assumes "generateQuizFromExtract rnd title extract = Some quiz" and "q \<in> set quiz"
  shows "length (options q) = 4
     \<and> distinct (map toLowerCase (options q))
     \<and> toLowerCase (answer q) \<in> set (map toLowerCase (options q))
     \<and> answer q \<in> set (options q)"
proof -
  from generated_question [OF assms] obtain s w opts i k where
    w: "w \<in> set (targetWords title (trim s))" and a: "answer q = strip_punct w"
    and so: "sample_options rnd (allWords extract (answer q)) (i + 1) [answer q] = Some (opts, k)"
    and o: "options q = fst (shuffle rnd k (pad_options opts))"
    by blast
  from sample_options_result [OF so] have
    ex: "\<exists>extra. opts = [answer q] @ extra"
    and d: "distinct (map toLowerCase opts)"
    and e: "allWords extract (answer q) = [] \<longrightarrow> opts = [answer q]"
    and f: "allWords extract (answer q) \<noteq> [] \<longrightarrow> length opts = 4"
    by simp_all
  from ex have mem: "answer q \<in> set opts" by auto
  have padded: "length (pad_options opts) = 4
     \<and> distinct (map toLowerCase (pad_options opts))
     \<and> answer q \<in> set (pad_options opts)"
  proof (cases "allWords extract (answer q) = []")
    case True
    with e have single: "opts = [answer q]" by simp
    from w a have "CHR '' '' \<notin> set (answer q)" by (simp add: target_no_space)
    then have "distinct (map toLowerCase (pad_options [answer q]))"
      by (rule distinct_padded_single)
    with single show ?thesis by (simp add: pad_options_single)
  next
    case False
    with f have "length opts = 4" by simp
    moreover from this have "pad_options opts = opts" by (simp add: pad_options_full)
    ultimately show ?thesis using d mem by simp
  qed
  from padded o have "length (options q) = 4" by (simp add: length_shuffle)
  moreover from padded o have "distinct (map toLowerCase (options q))"
    by (simp add: distinct_map_shuffle)
  moreover from padded o have "answer q \<in> set (options q)" by (simp add: set_shuffle)
  ultimately show ?thesis by auto
qed

theorem options_four_distinct_witness:
  "generateQuizFromExtract count_rng python_title python_extract = Some [python_question]
   \<and> length (options python_question) = 4
   \<and> distinct (map toLowerCase (options python_question))
   \<and> toLowerCase (answer python_question) \<in> set (map toLowerCase (options python_question))
   \<and> answer python_question \<in> set (options python_question)"
  using options_four_distinct [OF gen_python, of python_question] gen_python by simp

text \<open>
  Claim C10. The answer of every returned question has at least five characters. It is a
  word of the sentence with at most one character stripped; the word is longer than five
  characters when it is one of the preferred words and longer than six when it is one of
  the fallback words.
\<close>

theorem answer_length:
  assumes "generateQuizFromExtract rnd title extract = Some quiz" and "q \<in> set quiz"
  shows "5 \<le> length (answer q)
     \<and> (\<exists>s w. s \<in> set (sentence_pool extract)
          \<and> w \<in> set (split_char (CHR '' '') (trim s))
          \<and> answer q = strip_punct w
          \<and> length w \<le> length (answer q) + 1
          \<and> ((w \<in> set (words title (trim s)) \<and> 5 < length w)
             \<or> (words title (trim s) = [] \<and> w \<in> set (fallbackWords (trim s)) \<and> 6 < length w)))"
proof -
  from generated_question [OF assms] obtain s w where
    s: "s \<in> set (sentence_pool extract)"
    and w: "w \<in> set (targetWords title (trim s))" and a: "answer q = strip_punct w"
    by blast
  note c = targetWords_cases [OF w]
  from a have l: "length w \<le> length (answer q) + 1"
    using length_strip_punct [of w] by simp
  from c have "5 < length w" by auto
  with l have "5 \<le> length (answer q)" by simp
  moreover from s c a l have "\<exists>s w. s \<in> set (sentence_pool extract)
          \<and> w \<in> set (split_char (CHR '' '') (trim s))
          \<and> answer q = strip_punct w
          \<and> length w \<le> length (answer q) + 1
          \<and> ((w \<in> set (words title (trim s)) \<and> 5 < length w)
             \<or> (words title (trim s) = [] \<and> w \<in> set (fallbackWords (trim s)) \<and> 6 < length w))"
    by blast
  ultimately show ?thesis by simp
qed

theorem answer_length_witness:
  "generateQuizFromExtract count_rng python_title python_extract = Some [python_question]
   \<and> 5 \<le> length (answer python_question)
   \<and> answer python_question = strip_punct ''Rossum''"
  using answer_length [OF gen_python, of python_question] gen_python
  by (simp add: python_question_def strip_punct_def ends_punct_def)

text \<open>
  Claim C7, as amended. The answer of a returned question is a target word of its sentence
  with one final comma, full stop or semicolon removed, if the word ends in one. It never
  contains a full stop (the sentences are cut at the full stops), and it ends in a comma
  or semicolon exactly when the word ended in two such characters: one is removed, not
  all of them.
\<close>

theorem answer_punctuation:
  assumes "generateQuizFromExtract rnd title extract = Some quiz" and "q \<in> set quiz"
  shows "CHR ''.'' \<notin> set (answer q)
     \<and> (\<exists>s w. s \<in> set (sentence_pool extract)
          \<and> w \<in> set (targetWords title (trim s))
          \<and> answer q = strip_punct w
          \<and> (ends_punct (answer q) \<longleftrightarrow> ends_punct w \<and> ends_punct (butlast w)))"
proof -
  from generated_question [OF assms] obtain s w where
    s: "s \<in> set (sentence_pool extract)"
    and w: "w \<in> set (targetWords title (trim s))" and a: "answer q = strip_punct w"
    by blast
  from target_sublist [OF w] have "set (strip_punct w) \<subseteq> set (trim s)" by (rule sublist_set)
  with set_trim [of s] sentence_no_stop [OF s] a have "CHR ''.'' \<notin> set (answer q)" by auto
  moreover from a have "ends_punct (answer q) \<longleftrightarrow> ends_punct w \<and> ends_punct (butlast w)"
    by (simp add: ends_punct_strip_punct)
  ultimately show ?thesis using s w a by blast
qed

theorem answer_punctuation_witness:
  "generateQuizFromExtract count_rng ''France'' louvre_extract = Some [louvre_question]
   \<and> CHR ''.'' \<notin> set (answer louvre_question)
   \<and> (\<exists>s w. s \<in> set (sentence_pool louvre_extract)
          \<and> w \<in> set (targetWords ''France'' (trim s))
          \<and> answer louvre_question = strip_punct w
          \<and> (ends_punct (answer louvre_question) \<longleftrightarrow> ends_punct w \<and> ends_punct (butlast w)))"
  using answer_punctuation [OF gen_louvre, of louvre_question] gen_louvre by simp

text \<open>
  The claim as stated fails: the word \<open>Paris,,\<close> gives the answer \<open>Paris,\<close>.
\<close>

theorem answer_punctuation_counterexample:
  "generateQuizFromExtract count_rng ''France'' louvre_extract = Some [louvre_question]
   \<and> answer louvre_question = ''Paris,''
   \<and> ends_punct (answer louvre_question)"
  by (simp add: gen_louvre louvre_question_def ends_punct_def)

text \<open>
  Claim C3, as amended. The text of a returned question is the trimmed sentence with
  the leftmost occurrence of the answer, and no other, replaced by the seven
  underscores. Unless the first seven characters of the answer (all of them, when it has
  fewer) are underscores, the question does not read the answer at that place.
\<close>

theorem question_masks_first_occurrence:
  assumes "generateQuizFromExtract rnd title extract = Some quiz" and "q \<in> set quiz"
  shows "\<exists>s pre post. s \<in> set (sentence_pool extract)
     \<and> trim s = pre @ answer q @ post
     \<and> question q = pre @ blank @ post
     \<and> (\<forall>k < length pre. \<not> prefix (answer q) (drop k (trim s)))
     \<and> (\<not> prefix (take 7 (answer q)) blank
          \<longrightarrow> \<not> prefix (answer q) (drop (length pre) (question q)))"
proof -
  from generated_question [OF assms] obtain s w where
    s: "s \<in> set (sentence_pool extract)"
    and w: "w \<in> set (targetWords title (trim s))" and a: "answer q = strip_punct w"
    and qu: "question q = replace_first (trim s) (answer q) blank"
    by blast
  from target_sublist [OF w] a have "sublist (answer q) (trim s)" by simp
  from replace_first_found [OF this, of blank] qu obtain pre post where
    t: "trim s = pre @ answer q @ post" and r: "question q = pre @ blank @ post"
    and f: "\<forall>k < length pre. \<not> prefix (answer q) (drop k (trim s))"
    by auto
  have len: "length blank = 7" by (simp add: blank_def)
  have "\<not> prefix (answer q) (drop (length pre) (question q))"
    if n: "\<not> prefix (take 7 (answer q)) blank"
  proof
    assume "prefix (answer q) (drop (length pre) (question q))"
    with r have "prefix (answer q) (blank @ post)" by simp
    then have "prefix (take (length blank) (answer q)) blank" by (rule prefix_of_append_take)
    then have "prefix (take 7 (answer q)) blank" unfolding len .
    with n show False by contradiction
  qed
  with s t r f show ?thesis by blast
qed

theorem question_masks_first_occurrence_witness:
  "generateQuizFromExtract count_rng python_title python_extract = Some [python_question]
   \<and> \<not> prefix (take 7 (answer python_question)) blank
   \<and> (\<exists>s pre post. s \<in> set (sentence_pool python_extract)
     \<and> trim s = pre @ answer python_question @ post
     \<and> question python_question = pre @ blank @ post
     \<and> (\<forall>k < length pre. \<not> prefix (answer python_question) (drop k (trim s)))
     \<and> (\<not> prefix (take 7 (answer python_question)) blank
          \<longrightarrow> \<not> prefix (answer python_question) (drop (length pre) (question python_question))))"
  using question_masks_first_occurrence [OF gen_python, of python_question] gen_python
  by (simp add: python_question_def blank_def)

text \<open>
  The claim as stated fails when the answer is itself the marker: the question is the
  sentence unchanged and reads the answer at the masked place.
\<close>

theorem question_masks_first_occurrence_counterexample:
  "generateQuizFromExtract count_rng ''Cloze test'' cloze_extract = Some [cloze_question]
   \<and> answer cloze_question = blank
   \<and> question cloze_question
       = ''In this sentence the hidden word is shown as '' @ answer cloze_question
         @ '' and the reader has to find out which word it stands for in the text''"
  by (simp add: gen_cloze cloze_question_def blank_def)

section \<open>The sampling loop need not return\<close>

lemma sample_options_never_returns:
  assumes "pool \<noteq> []" and "distinct (map toLowerCase opts)"
    and "card (toLowerCase ` (set opts \<union> strip_punct ` set pool)) < 4"
  shows "sample_options rnd pool i opts = None"
proof (cases "sample_options rnd pool i opts")
  case None
  then show ?thesis .
next
  case (Some y)
  from sample_options_stuck [OF this] assms show ?thesis by blast
qed

lemma indeed_pool: "sentence_pool indeed_extract = [indeed_extract]"
  by code_simp

lemma indeed_trim: "trim indeed_extract = indeed_extract"
  by code_simp

lemma indeed_targets: "targetWords ''Monty'' indeed_extract = [''Python'']"
  by code_simp

lemma indeed_allWords: "allWords indeed_extract ''Python'' = [''indeed'']"
  by code_simp

lemma indeed_sample: "sample_options rnd [''indeed''] i [''Python''] = None"
proof (rule sample_options_never_returns)
  show "[''indeed''] \<noteq> []" by simp
  show "distinct (map toLowerCase [''Python''])" by simp
  have "card (toLowerCase ` (set [''Python''] \<union> strip_punct ` set [''indeed'']))
      \<le> card (set [''Python''] \<union> strip_punct ` set [''indeed''])"
    by (rule card_image_le) simp
  also have "\<dots> \<le> 2" by (simp add: card_insert_if)
  finally show "card (toLowerCase ` (set [''Python''] \<union> strip_punct ` set [''indeed''])) < 4"
    by simp
qed

lemma indeed_question: "make_question rnd i ''Monty'' indeed_extract indeed_extract = None"
proof -
  have "strip_punct ''Python'' = ''Python''" by (simp add: strip_punct_def ends_punct_def)
  then show ?thesis
    unfolding make_question_def indeed_trim
    by (simp add: Let_def indeed_targets random_index_def indeed_allWords indeed_sample)
qed

text \<open>
  Claim C1 says that \<open>generateQuizFromExtract\<close> returns on every title and extract.
  It does not: on this extract, whose only words of more than five characters are
  \<open>Python\<close> and \<open>indeed\<close>, the sampling loop runs forever, whatever is drawn. The loop
  was meant to fall through to the padding when the candidates run out, but the
  candidates are never used up.
\<close>

theorem distractor_loop_never_returns:
  "generateQuizFromExtract rnd ''Monty'' indeed_extract = None"
  unfolding generateQuizFromExtract_def indeed_pool
  by (simp add: Let_def random_index_def indeed_question)

section \<open>Resolving the title and reading the response\<close>

lemma split_on_head:
  "\<exists>rest. split_on sep cur s = (cur @ takeWhile (\<lambda>c. \<not> sep c) s) # rest"
  by (induction sep cur s rule: split_on.induct) auto

lemma split_wiki_path:
  "\<exists>rest. split_char (CHR ''/'') (''/wiki/'' @ t)
     = [] # ''wiki'' # takeWhile (\<lambda>c. c \<noteq> CHR ''/'') t # rest"
proof -
  obtain rest where "split_on (\<lambda>c. c = CHR ''/'') [] t
      = ([] @ takeWhile (\<lambda>c. \<not> c = CHR ''/'') t) # rest"
    using split_on_head [of "\<lambda>c. c = CHR ''/''" "[]" t] by blast
  then show ?thesis by (simp add: split_char_def)
qed

lemma index_wiki: "indexOf ([] # ''wiki'' # rest) ''wiki'' = 1"
  by simp

lemma at_wiki: "at_index (a # b # c # rest) (1 + 1) = Some c"
  by (simp add: at_index_def)


lemma parseWikiUrl_wikipedia:
  assumes "new_URL pf addr = Some u" and "str_includes (hostname u) ''wikipedia.org''"
  shows "parseWikiUrl pf addr =
     (if indexOf (split_char (CHR ''/'') (pathname u)) ''wiki'' \<noteq> - 1
         \<and> truthy (at_index (split_char (CHR ''/'') (pathname u))
               (indexOf (split_char (CHR ''/'') (pathname u)) ''wiki'' + 1))
      then decodeURIComponent pf
             (to_string (at_index (split_char (CHR ''/'') (pathname u))
                (indexOf (split_char (CHR ''/'') (pathname u)) ''wiki'' + 1)))
      else if truthy (search_get (searchParams u) ''title'')
           then search_get (searchParams u) ''title'' else None)"
  using assms by (simp add: parseWikiUrl_def Let_def)

lemma wiki_path_first_segment:
  assumes "new_URL pf addr = Some u"
    and "str_includes (hostname u) ''wikipedia.org''"
    and "pathname u = ''/wiki/'' @ t"
    and "takeWhile (\<lambda>c. c \<noteq> CHR ''/'') t \<noteq> []"
  shows "parseWikiUrl pf addr = decodeURIComponent pf (takeWhile (\<lambda>c. c \<noteq> CHR ''/'') t)"
proof -
  define seg where "seg = takeWhile (\<lambda>c. c \<noteq> CHR ''/'') t"
  from split_wiki_path [of t] obtain rest where
    "split_char (CHR ''/'') (''/wiki/'' @ t) = [] # ''wiki'' # seg # rest"
    unfolding seg_def ..
  then have parts: "split_char (CHR ''/'') (pathname u) = [] # ''wiki'' # seg # rest"
    by (simp only: assms(3))
  from assms(4) have t: "truthy (Some seg)" by (simp add: truthy_def seg_def)
  have "parseWikiUrl pf addr = decodeURIComponent pf (to_string (Some seg))"
    unfolding parseWikiUrl_wikipedia [OF assms(1,2)] parts index_wiki at_wiki
    using t by simp
  then show ?thesis by (simp add: to_string_def seg_def)
qed

text \<open>
  A title without a slash is the whole segment after \<open>wiki\<close>, and \<open>parseWikiUrl\<close>
  returns what \<open>decodeURIComponent\<close> makes of it.
\<close>

lemma wiki_path_without_slash:
  assumes "new_URL pf addr = Some u"
    and "str_includes (hostname u) ''wikipedia.org''"
    and "pathname u = ''/wiki/'' @ t"
    and "t \<noteq> []"
    and "CHR ''/'' \<notin> set t"
  shows "parseWikiUrl pf addr = decodeURIComponent pf t"
proof -
  from assms(5) have "takeWhile (\<lambda>c. c \<noteq> CHR ''/'') t = t"
    by (auto simp: takeWhile_eq_all_conv)
  with wiki_path_first_segment [OF assms(1,2,3)] assms(4) show ?thesis by simp
qed

text \<open>
  Claim C4, as amended. Let the input parse as a URL whose host name contains
  \<open>wikipedia.org\<close>, whose path has no segment \<open>wiki\<close> or has no non-empty segment after
  the first one, and whose first \<open>title\<close> parameter is not empty. Then \<open>parseWikiUrl\<close>
  returns that parameter's value.
\<close>

theorem title_parameter:
  assumes "new_URL pf addr = Some u"
    and "str_includes (hostname u) ''wikipedia.org''"
    and "indexOf (split_char (CHR ''/'') (pathname u)) ''wiki'' = - 1
       \<or> \<not> truthy (at_index (split_char (CHR ''/'') (pathname u))
               (indexOf (split_char (CHR ''/'') (pathname u)) ''wiki'' + 1))"
    and "search_get (searchParams u) ''title'' = Some t"
    and "t \<noteq> []"
  shows "parseWikiUrl pf addr = Some t"
proof -
  from assms(3) have "\<not> (indexOf (split_char (CHR ''/'') (pathname u)) ''wiki'' \<noteq> - 1
         \<and> truthy (at_index (split_char (CHR ''/'') (pathname u))
               (indexOf (split_char (CHR ''/'') (pathname u)) ''wiki'' + 1)))"
    by blast
  then have "parseWikiUrl pf addr =
     (if truthy (search_get (searchParams u) ''title'')
      then search_get (searchParams u) ''title'' else None)"
    unfolding parseWikiUrl_wikipedia [OF assms(1,2)] by (rule if_not_P)
  with assms(4,5) show ?thesis by (simp add: truthy_def)
qed

text \<open>
  Claim C9. When the input parses as a URL whose host name does not contain
  \<open>wikipedia.org\<close>, \<open>parseWikiUrl\<close> returns \<open>null\<close>, and the title that
  \<open>fetchWikiArticle\<close> asks for is the input itself.
\<close>

theorem non_wikipedia_host:
  assumes "new_URL pf addr = Some u"
    and "\<not> str_includes (hostname u) ''wikipedia.org''"
  shows "parseWikiUrl pf addr = None \<and> resolve_title pf addr = addr"
proof -
  from assms have "parseWikiUrl pf addr = None" by (simp add: parseWikiUrl_def)
  then show ?thesis by (simp add: resolve_title_def truthy_def)
qed

lemma fetch_no_response:
  "axios_get (resolve_title pf s) = None \<Longrightarrow> fetchWikiArticle pf axios_get s = Inl RequestFailed"
  by (simp add: fetchWikiArticle_def)

lemma fetch_no_page:
  "axios_get (resolve_title pf s) = Some [] \<Longrightarrow> fetchWikiArticle pf axios_get s = Inl TypeError"
  by (simp add: fetchWikiArticle_def)

lemma fetch_first_page:
  "axios_get (resolve_title pf s) = Some ((pid, p) # rest) \<Longrightarrow>
   fetchWikiArticle pf axios_get s =
     (if is_true (page_missing p) \<or> pid = ''-1'' then Inl ArticleNotFound
      else Inr \<lparr>article_title = page_title p, article_extract = page_extract p,
                article_url = ''https://en.wikipedia.org/wiki/''
                  @ encodeURIComponent (page_title p)\<rparr>)"
  by (simp add: fetchWikiArticle_def)

text \<open>
  Claim C6. \<open>fetchWikiArticle\<close> fails with \<open>Article not found\<close> exactly when the
  response has a first page and that page is marked missing (its \<open>missing\<close> counts as
  true) or has the id \<open>-1\<close>. When the first page is neither, the result is its title,
  its extract and the address built from its title.
\<close>

theorem fetch_article_result:
  "(fetchWikiArticle pf axios_get s = Inl ArticleNotFound
      \<longleftrightarrow> (\<exists>pid p rest. axios_get (resolve_title pf s) = Some ((pid, p) # rest)
             \<and> (is_true (page_missing p) \<or> pid = ''-1'')))
   \<and> (\<forall>pid p rest. axios_get (resolve_title pf s) = Some ((pid, p) # rest)
          \<and> \<not> is_true (page_missing p) \<and> pid \<noteq> ''-1''
        \<longrightarrow> fetchWikiArticle pf axios_get s
            = Inr \<lparr>article_title = page_title p, article_extract = page_extract p,
                   article_url = ''https://en.wikipedia.org/wiki/''
                     @ encodeURIComponent (page_title p)\<rparr>)"
proof (cases "axios_get (resolve_title pf s)")
  case None
  then show ?thesis by (simp add: fetch_no_response)
next
  case (Some pages)
  show ?thesis
  proof (cases pages)
    case Nil
    with Some show ?thesis by (simp add: fetch_no_page)
  next
    case (Cons first rest)
    obtain pid p where "first = (pid, p)" by (cases first)
    with Some Cons have r: "axios_get (resolve_title pf s) = Some ((pid, p) # rest)" by simp
    show ?thesis
      unfolding fetch_first_page [where axios_get = axios_get and pf = pf and s = s, OF r] r
      by simp
  qed
qed

lemma example_hosts:
  "str_includes (hostname turing_parsed) ''wikipedia.org''"
  "str_includes (hostname acdc_parsed) ''wikipedia.org''"
  "str_includes (hostname index_parsed) ''wikipedia.org''"
  "\<not> str_includes (hostname other_parsed) ''wikipedia.org''"
  by code_simp+

lemma example_urls:
  "new_URL example_platform turing_url = Some turing_parsed"
  "new_URL example_platform acdc_url = Some acdc_parsed"
  "new_URL example_platform index_url = Some index_parsed"
  "new_URL example_platform other_url = Some other_parsed"
  by code_simp+

lemma wiki_path_without_slash_example:
  "new_URL example_platform turing_url = Some turing_parsed
   \<and> str_includes (hostname turing_parsed) ''wikipedia.org''
   \<and> pathname turing_parsed = ''/wiki/'' @ ''Alan_Turing''
   \<and> CHR ''/'' \<notin> set ''Alan_Turing''
   \<and> parseWikiUrl example_platform turing_url
       = decodeURIComponent example_platform ''Alan_Turing''
   \<and> parseWikiUrl example_platform turing_url = Some ''Alan_Turing''"
proof -
  have p: "pathname turing_parsed = ''/wiki/'' @ ''Alan_Turing''"
    by (simp add: turing_parsed_def)
  have n: "''Alan_Turing'' \<noteq> []" by simp
  have t: "CHR ''/'' \<notin> set ''Alan_Turing''" by simp
  have d: "decodeURIComponent example_platform ''Alan_Turing'' = Some ''Alan_Turing''"
    by (simp add: example_platform_def example_decode_def)
  from wiki_path_without_slash [OF example_urls(1) example_hosts(1) p n t] d p t
  show ?thesis by (simp add: example_urls(1) example_hosts(1))
qed

text \<open>
  Claim C5 says that for every article address \<open>https://<lang>.wikipedia.org/wiki/<Title>\<close>
  \<open>parseWikiUrl\<close> returns the title, percent-decoded. It does not when the title has a
  slash: the path is cut at every slash and the one segment after \<open>wiki\<close> is returned,
  so the address of the article \<open>AC/DC\<close> gives \<open>AC\<close>, although the title decodes to
  itself. The other way of naming the article, the \<open>title\<close> parameter, returns the same
  title whole.
\<close>

theorem wiki_path_title_cut_at_slash:
  "new_URL example_platform acdc_url = Some acdc_parsed
   \<and> hostname acdc_parsed = ''en.wikipedia.org''
   \<and> pathname acdc_parsed = ''/wiki/'' @ ''AC/DC''
   \<and> decodeURIComponent example_platform ''AC/DC'' = Some ''AC/DC''
   \<and> parseWikiUrl example_platform acdc_url = Some ''AC''
   \<and> parseWikiUrl example_platform acdc_index_url = Some ''AC/DC''"
  by code_simp

theorem title_parameter_witness:
  "new_URL example_platform index_url = Some index_parsed
   \<and> str_includes (hostname index_parsed) ''wikipedia.org''
   \<and> indexOf (split_char (CHR ''/'') (pathname index_parsed)) ''wiki'' = - 1
   \<and> search_get (searchParams index_parsed) ''title'' = Some ''Alan_Turing''
   \<and> parseWikiUrl example_platform index_url = Some ''Alan_Turing''"
proof -
  have i: "indexOf (split_char (CHR ''/'') (pathname index_parsed)) ''wiki'' = - 1"
    by code_simp
  have g: "search_get (searchParams index_parsed) ''title'' = Some ''Alan_Turing''"
    by code_simp
  have n: "''Alan_Turing'' \<noteq> []" by simp
  from title_parameter [OF example_urls(3) example_hosts(3) disjI1 [OF i] g n] i g
  show ?thesis by (simp add: example_urls(3) example_hosts(3))
qed

text \<open>
  The claim as stated fails for a URL of another host: it carries a \<open>title\<close> parameter
  and \<open>parseWikiUrl\<close> returns \<open>null\<close>.
\<close>

theorem title_parameter_counterexample:
  "new_URL example_platform other_url = Some other_parsed
   \<and> search_get (searchParams other_parsed) ''title'' = Some ''Alan_Turing''
   \<and> parseWikiUrl example_platform other_url = None"
  by code_simp

theorem non_wikipedia_host_witness:
  "new_URL example_platform other_url = Some other_parsed
   \<and> \<not> str_includes (hostname other_parsed) ''wikipedia.org''
   \<and> parseWikiUrl example_platform other_url = None
   \<and> resolve_title example_platform other_url = other_url"
  using non_wikipedia_host [OF example_urls(4) example_hosts(4)]
  by (simp add: example_urls(4) example_hosts(4))

lemma example_titles:
  "resolve_title example_platform ''Alan_Turing'' = ''Alan_Turing''"
  "resolve_title example_platform ''Nosuchpage'' = ''Nosuchpage''"
  by code_simp+

lemma example_encoded:
  "''https://en.wikipedia.org/wiki/'' @ encodeURIComponent (page_title turing_page)
     = ''https://en.wikipedia.org/wiki/Alan%20Turing''"
  by code_simp

theorem fetch_article_result_witness:
  "fetchWikiArticle example_platform example_axios_get ''Alan_Turing'' = Inr turing_article
   \<and> fetchWikiArticle example_platform example_axios_get ''Nosuchpage'' = Inl ArticleNotFound"
proof -
  have a: "example_axios_get (resolve_title example_platform ''Alan_Turing'')
      = Some ((''1208'', turing_page) # [])"
    unfolding example_titles by (simp add: example_axios_get_def)
  have b: "\<not> is_true (page_missing turing_page) \<and> ''1208'' \<noteq> ''-1''"
    by (simp add: turing_page_def is_true_def)
  have c: "example_axios_get (resolve_title example_platform ''Nosuchpage'')
      = Some ((''-1'', \<lparr>page_title = ''Nosuchpage'', page_extract = None,
                        page_missing = JS_string []\<rparr>) # [])"
    unfolding example_titles by (simp add: example_axios_get_def)
  from fetch_article_result [of example_platform example_axios_get "''Alan_Turing''"] a b
  have "fetchWikiArticle example_platform example_axios_get ''Alan_Turing''
      = Inr \<lparr>article_title = page_title turing_page, article_extract = page_extract turing_page,
             article_url = ''https://en.wikipedia.org/wiki/''
               @ encodeURIComponent (page_title turing_page)\<rparr>"
    by blast
  then have "fetchWikiArticle example_platform example_axios_get ''Alan_Turing''
      = Inr turing_article"
    unfolding example_encoded by (simp add: turing_page_def turing_article_def)
  moreover from fetch_article_result [of example_platform example_axios_get "''Nosuchpage''"] c
  have "fetchWikiArticle example_platform example_axios_get ''Nosuchpage'' = Inl ArticleNotFound"
    by blast
  ultimately show ?thesis by (rule conjI)
qed

section \<open>The history keeps one entry per address and date\<close>

lemma distinct_filter_indexed:
  assumes "\<And>i j. i < length a \<Longrightarrow> j < length a \<Longrightarrow> f (a ! i) i a \<Longrightarrow> f (a ! j) j a
             \<Longrightarrow> key (a ! i) = key (a ! j) \<Longrightarrow> i = j"
  shows "distinct (map key (filter_indexed f a))"
proof -
  let ?kept = "filter (\<lambda>(i, v). f v i a) (enumerate 0 a)"
  have "distinct ?kept" by simp
  moreover have "inj_on (key \<circ> snd) (set ?kept)"
  proof (rule inj_onI)
    fix p q assume p: "p \<in> set ?kept" and q: "q \<in> set ?kept"
      and eq: "(key \<circ> snd) p = (key \<circ> snd) q"
    obtain i v where pv: "p = (i, v)" by (cases p)
    obtain j w where qw: "q = (j, w)" by (cases q)
    from p pv have i: "i < length a" "v = a ! i" "f v i a"
      by (auto simp: in_set_enumerate_eq)
    from q qw have j: "j < length a" "w = a ! j" "f w j a"
      by (auto simp: in_set_enumerate_eq)
    from eq pv qw have "key v = key w" by simp
    with i j assms have "i = j" by blast
    with i j pv qw show "p = q" by simp
  qed
  ultimately have "distinct (map (key \<circ> snd) ?kept)" by (simp add: distinct_map)
  then show ?thesis by (simp add: filter_indexed_def)
qed

lemma distinct_newHistory:
  "distinct (map (\<lambda>h. (url h, date h)) (newHistory item hist))"
  unfolding newHistory_def
proof (rule distinct_filter_indexed)
  fix i j :: nat
  let ?a = "item # hist"
  assume fi: "findIndex (\<lambda>t. url t = url (?a ! i) \<and> date t = date (?a ! i)) ?a = int i"
    and fj: "findIndex (\<lambda>t. url t = url (?a ! j) \<and> date t = date (?a ! j)) ?a = int j"
    and k: "(url (?a ! i), date (?a ! i)) = (url (?a ! j), date (?a ! j))"
  from k have u: "url (?a ! i) = url (?a ! j)" and d: "date (?a ! i) = date (?a ! j)"
    by (metis prod.inject)+
  from fi have "findIndex (\<lambda>t. url t = url (?a ! j) \<and> date t = date (?a ! j)) ?a = int i"
    unfolding u d .
  with fj have "int i = int j" by (simp only:)
  then show "i = j" by simp
qed

text \<open>
  Claim C8. Whatever the history was and whatever record is saved, the list that
  \<open>saveToHistory\<close> stores (and keeps as the component's history) has no two entries of
  the same \<open>url\<close> and \<open>date\<close>; so saving a record whose pair is already there adds no
  duplicate.
\<close>

theorem saveToHistory_no_duplicates:
  "localStorage (saveToHistory item st) ''wiki_quiz_history''
     = Some (history (saveToHistory item st))
   \<and> distinct (map (\<lambda>h. (url h, date h)) (history (saveToHistory item st)))"
  by (simp add: saveToHistory_def Let_def distinct_newHistory)

lemma save_example: "history (saveToHistory item2 state1) = [item2]"
  unfolding saveToHistory_def newHistory_def filter_indexed_def state1_def item1_def item2_def
  by (simp add: Let_def enumerate_eq_zip upt_rec)

theorem saveToHistory_no_duplicates_witness:
  "localStorage (saveToHistory item2 state1) ''wiki_quiz_history'' = Some [item2]
   \<and> distinct (map (\<lambda>h. (url h, date h)) [item2])
   \<and> url item2 = url item1 \<and> date item2 = date item1"
  using saveToHistory_no_duplicates [of item2 state1]
  by (simp add: save_example) (simp add: item1_def item2_def)

end
